theory Spec2Isabelle
  imports Main
begin

section \<open>Byte strings, header values and the two string functions RoundTrip uses\<close>

text \<open>
  Go strings and byte slices are sequences of bytes; both are modelled as \<open>string\<close>
  (a list of 8-bit characters).
\<close>

type_synonym bytes = string

text \<open>
  \<open>strings.Split(s, ",")\<close>: the pieces of \<open>s\<close> between the commas, in order; a string
  without a comma gives the one-element list. \<open>Split_from cur s\<close> carries the piece read
  so far.
\<close>

fun Split_from :: "string \<Rightarrow> string \<Rightarrow> string list" where
  "Split_from cur [] = [cur]"
| "Split_from cur (c # cs) =
     (if c = CHR '','' then cur # Split_from [] cs else Split_from (cur @ [c]) cs)"

definition Split :: "string \<Rightarrow> string list" where
  "Split s = Split_from [] s"

text \<open>
  \<open>strings.TrimSpace\<close> removes leading and trailing white space as Unicode defines it
  (\<open>unicode.IsSpace\<close>). On the UTF-8 bytes of a Go string these are the byte sequences
  below: tab, line feed, vertical tab, form feed, carriage return, space, U+0085, U+00A0,
  U+1680, U+2000 to U+200A, U+2028, U+2029, U+202F, U+205F and U+3000.
\<close>

definition space_runes :: "string list" where
  "space_runes =
     [[CHR 0x09], [CHR 0x0A], [CHR 0x0B], [CHR 0x0C], [CHR 0x0D], [CHR 0x20],
      [CHR 0xC2, CHR 0x85], [CHR 0xC2, CHR 0xA0],
      [CHR 0xE1, CHR 0x9A, CHR 0x80],
      [CHR 0xE2, CHR 0x80, CHR 0x80], [CHR 0xE2, CHR 0x80, CHR 0x81],
      [CHR 0xE2, CHR 0x80, CHR 0x82], [CHR 0xE2, CHR 0x80, CHR 0x83],
      [CHR 0xE2, CHR 0x80, CHR 0x84], [CHR 0xE2, CHR 0x80, CHR 0x85],
      [CHR 0xE2, CHR 0x80, CHR 0x86], [CHR 0xE2, CHR 0x80, CHR 0x87],
      [CHR 0xE2, CHR 0x80, CHR 0x88], [CHR 0xE2, CHR 0x80, CHR 0x89],
      [CHR 0xE2, CHR 0x80, CHR 0x8A],
      [CHR 0xE2, CHR 0x80, CHR 0xA8], [CHR 0xE2, CHR 0x80, CHR 0xA9],
      [CHR 0xE2, CHR 0x80, CHR 0xAF], [CHR 0xE2, CHR 0x81, CHR 0x9F],
      [CHR 0xE3, CHR 0x80, CHR 0x80]]"

text \<open>The length of the rune of \<open>ps\<close> that \<open>s\<close> starts with, 0 when it starts with none.\<close>

definition lead_len :: "string list \<Rightarrow> string \<Rightarrow> nat" where
  "lead_len ps s =
     (case find (\<lambda>p. p \<noteq> [] \<and> take (length p) s = p) ps of
        None \<Rightarrow> 0
      | Some p \<Rightarrow> length p)"

function trim_left :: "string list \<Rightarrow> string \<Rightarrow> string" where
  "trim_left ps s = (if lead_len ps s = 0 then s else trim_left ps (drop (lead_len ps s) s))"
  by pat_completeness auto
termination
proof (relation "measure (\<lambda>(ps, s). length s)")
  show "wf (measure (\<lambda>(ps, s). length s))" by simp
next
  fix ps :: "string list" and s :: string
  assume nz: "lead_len ps s \<noteq> 0"
  have "lead_len ps s \<le> length s"
  proof (cases "find (\<lambda>p. p \<noteq> [] \<and> take (length p) s = p) ps")
    case None
    then show ?thesis by (simp add: lead_len_def)
  next
    case (Some p)
    then have "take (length p) s = p"
      by (auto simp: find_Some_iff)
    then have "length p \<le> length s"
      by (metis length_take min.cobounded1)
    with Some show ?thesis by (simp add: lead_len_def)
  qed
  with nz show "((ps, drop (lead_len ps s) s), (ps, s)) \<in> measure (\<lambda>(ps, s). length s)"
    by simp
qed

declare trim_left.simps [simp del]

definition TrimSpace :: "string \<Rightarrow> string" where
  "TrimSpace s = rev (trim_left (map rev space_runes) (rev (trim_left space_runes s)))"

section \<open>Streams, decoders and the response\<close>

text \<open>
  What a reader delivers when it is read to completion: the bytes, and then either the
  end of the stream (\<open>None\<close>) or a read error.
\<close>

type_synonym outcome = "bytes \<times> string option"

text \<open>
  The body that the wrapped transport hands over, an io.ReadCloser of unknown make:
  \<open>unread\<close> are the bytes a read of the body still yields, \<open>read_err\<close> is the error
  that ends the stream (\<open>None\<close> for io.EOF) and \<open>close_err\<close> what its Close returns.
\<close>

record rawbody =
  unread :: bytes
  read_err :: "string option"
  close_err :: "string option"

definition raw_ReadAll :: "rawbody \<Rightarrow> outcome" where
  "raw_ReadAll r = (unread r, read_err r)"

text \<open>The three decoders RoundTrip constructs; \<open>Br\<close> is the brotli reader in io.NopCloser.\<close>

datatype encoding = Gzip | Deflate | Br

text \<open>
  The values of the variable \<open>body\<close>. \<open>RawBody held r\<close> is the transport's body \<open>r\<close>
  under the readers constructed on it; \<open>held\<close> are the bytes these readers have already
  taken out of \<open>r\<close> and keep in their buffers. In \<open>cascadeReadCloser\<close>, \<open>readFrom\<close> is the
  decoder, which reads from the stream in \<open>cascade\<close>.
\<close>

datatype body =
    RawBody (held: bytes) rawbody
  | cascadeReadCloser (readFrom: encoding) (cascade: body)

text \<open>
  The decoders are those of compress/gzip, compress/flate and andybalholm/brotli, which
  are not part of this repository: they are parameters. A decoder maps what the reader
  below it delivers to what it delivers itself, and its Close may depend on the same.
  \<open>gzip_NewReader\<close> is the error of gzip.NewReader, which reads the gzip header from the
  reader below; \<open>gzip_NewReader_draws\<close> is the number of bytes this takes out of the
  transport's body, given the decoders already between the two (outermost first) and
  what the transport's body still holds. flate.NewReader and brotli.NewReader return no
  error and read nothing.
\<close>

record codecs =
  gzip_NewReader :: "outcome \<Rightarrow> string option"
  gzip_NewReader_draws :: "encoding list \<Rightarrow> outcome \<Rightarrow> nat"
  gzip_Read :: "outcome \<Rightarrow> outcome"
  gzip_Close :: "outcome \<Rightarrow> string option"
  flate_Read :: "outcome \<Rightarrow> outcome"
  flate_Close :: "outcome \<Rightarrow> string option"
  brotli_Read :: "outcome \<Rightarrow> outcome"

fun decoder_Read :: "codecs \<Rightarrow> encoding \<Rightarrow> outcome \<Rightarrow> outcome" where
  "decoder_Read cs Gzip = gzip_Read cs"
| "decoder_Read cs Deflate = flate_Read cs"
| "decoder_Read cs Br = brotli_Read cs"

fun decoder_Close :: "codecs \<Rightarrow> encoding \<Rightarrow> outcome \<Rightarrow> string option" where
  "decoder_Close cs Gzip below = gzip_Close cs below"
| "decoder_Close cs Deflate below = flate_Close cs below"
| "decoder_Close cs Br below = None"

text \<open>
  \<open>io.ReadAll\<close> on a body: \<open>cascadeReadCloser.Read\<close> is \<open>readFrom.Read\<close>, and the
  readers on the transport's body see the bytes they hold followed by the unread ones.
\<close>

fun ReadAll :: "codecs \<Rightarrow> body \<Rightarrow> outcome" where
  "ReadAll cs (RawBody h r) = (h @ unread r, read_err r)"
| "ReadAll cs (cascadeReadCloser e b) = decoder_Read cs e (ReadAll cs b)"

text \<open>The decoders of a body, outermost first, and the transport's body at the bottom.\<close>

fun layers :: "body \<Rightarrow> encoding list" where
  "layers (RawBody h r) = []"
| "layers (cascadeReadCloser e b) = e # layers b"

fun raw_of :: "body \<Rightarrow> rawbody" where
  "raw_of (RawBody h r) = r"
| "raw_of (cascadeReadCloser e b) = raw_of b"

text \<open>The readers take \<open>n\<close> more bytes out of the transport's body.\<close>

fun draw :: "nat \<Rightarrow> body \<Rightarrow> body" where
  "draw n (RawBody h r) = RawBody (h @ take n (unread r)) (r\<lparr>unread := drop n (unread r)\<rparr>)"
| "draw n (cascadeReadCloser e b) = cascadeReadCloser e (draw n b)"

subsection \<open>Close\<close>

text \<open>
  A Close is an action on the log of the resources closed so far and returns its error.
  \<open>cascadeReadCloser_Close\<close> is the method \<open>Close\<close>, for any two closers \<open>readFrom\<close>
  and \<open>cascade\<close>.
\<close>

datatype closed = ClosedDecoder encoding | ClosedRaw

type_synonym closer = "closed list \<Rightarrow> string option \<times> closed list"

definition cascadeReadCloser_Close :: "closer \<Rightarrow> closer \<Rightarrow> closer" where
  "cascadeReadCloser_Close readFrom_Close cascade_Close log =
     (let (rerr, log1) = readFrom_Close log;
          (cerr, log2) = cascade_Close log1
      in if rerr \<noteq> None \<and> cerr \<noteq> None then (Some (the rerr @ '': '' @ the cerr), log2)
         else if rerr \<noteq> None then (rerr, log2)
         else if cerr \<noteq> None then (cerr, log2)
         else (None, log2))"

fun Close :: "codecs \<Rightarrow> body \<Rightarrow> closer" where
  "Close cs (RawBody h r) = (\<lambda>log. (close_err r, log @ [ClosedRaw]))"
| "Close cs (cascadeReadCloser e b) =
     cascadeReadCloser_Close
       (\<lambda>log. (decoder_Close cs e (ReadAll cs b), log @ [ClosedDecoder e]))
       (Close cs b)"

subsection \<open>The response\<close>

text \<open>
  \<open>http.Header\<close> is a map from the canonical key to the list of its values;
  \<open>Get\<close> is the first value or the empty string, \<open>Del\<close> removes the key.
\<close>

type_synonym header = "string \<rightharpoonup> string list"

definition Get :: "header \<Rightarrow> string \<Rightarrow> string" where
  "Get h k = (case h k of None \<Rightarrow> [] | Some [] \<Rightarrow> [] | Some (v # vs) \<Rightarrow> v)"

definition Del :: "header \<Rightarrow> string \<Rightarrow> header" where
  "Del h k = h(k := None)"

text \<open>
  The fields of \<open>http.Response\<close> that RoundTrip reads or writes, and the status. The
  type of \<open>Body\<close> is \<open>rawbody\<close> in the response of the wrapped transport and \<open>body\<close> in
  the one RoundTrip returns.
\<close>

record 'b response =
  StatusCode :: int
  Header :: header
  Body :: 'b
  ContentLength :: int
  Uncompressed :: bool

text \<open>The assignment \<open>res.Body = b\<close>.\<close>

definition set_Body :: "'a response \<Rightarrow> 'b \<Rightarrow> 'b response" where
  "set_Body res b =
     \<lparr>StatusCode = StatusCode res, Header = Header res, Body = b,
      ContentLength = ContentLength res, Uncompressed = Uncompressed res\<rparr>"

type_synonym request = string

text \<open>
  The errors RoundTrip returns: the wrapped transport's own error, the error of
  gzip.NewReader wrapped by fmt.Errorf, and ErrUnsupportedEncoding, whose \<open>Original\<close> is
  the response object of the transport.
\<close>

datatype error =
    TransportError string
  | CreateGzipReader string
  | ErrUnsupportedEncoding (Original: "rawbody response") (Encoding: string)

fun Error :: "error \<Rightarrow> string" where
  "Error (TransportError m) = m"
| "Error (CreateGzipReader m) = ''decompress: create gzip reader: '' @ m"
| "Error (ErrUnsupportedEncoding res enc) =
     ''decompress: unsuported content encoding `'' @ enc @ ''`''"

text \<open>\<open>errors.Unwrap\<close>: the error that \<open>%w\<close> wrapped.\<close>

fun Unwrap :: "error \<Rightarrow> string option" where
  "Unwrap (CreateGzipReader m) = Some m"
| "Unwrap e = None"

section \<open>RoundTrip\<close>

text \<open>The state of the loop: the variables \<open>body\<close> and \<open>decompressed\<close>.\<close>

record loop_state =
  body :: body
  decompressed :: bool

datatype loop_error = GzipError string | Unsupported string

text \<open>
  One pass of the loop body: the switch on the trimmed token. An error leaves the loop
  with the state reached, in which the transport's body is the one at the bottom of
  \<open>body\<close>.
\<close>

definition switch_encoding ::
  "codecs \<Rightarrow> string \<Rightarrow> loop_state \<Rightarrow> loop_error \<times> loop_state + loop_state" where
  "switch_encoding cs encoding st =
     (if encoding = ''gzip'' then
        (let b = draw (gzip_NewReader_draws cs (layers (body st)) (raw_ReadAll (raw_of (body st))))
                  (body st);
             st1 = st\<lparr>decompressed := True, body := b\<rparr>
         in case gzip_NewReader cs (ReadAll cs (body st)) of
              Some err \<Rightarrow> Inl (GzipError err, st1)
            | None \<Rightarrow> Inr (st1\<lparr>body := cascadeReadCloser Gzip b\<rparr>))
      else if encoding = ''deflate'' then
        Inr (st\<lparr>decompressed := True, body := cascadeReadCloser Deflate (body st)\<rparr>)
      else if encoding = ''br'' then
        Inr (st\<lparr>decompressed := True, body := cascadeReadCloser Br (body st)\<rparr>)
      else if encoding = ''identity'' \<or> encoding = [] then
        Inr st
      else Inl (Unsupported encoding, st))"

text \<open>
  \<open>for i := len(encodings) - 1; i >= 0; i--\<close>: \<open>loop cs encodings n st\<close> runs the passes
  for \<open>i = n - 1\<close> down to \<open>0\<close>.
\<close>

fun loop ::
  "codecs \<Rightarrow> string list \<Rightarrow> nat \<Rightarrow> loop_state \<Rightarrow> loop_error \<times> loop_state + loop_state" where
  "loop cs encodings 0 st = Inr st"
| "loop cs encodings (Suc i) st =
     (case switch_encoding cs (TrimSpace (encodings ! i)) st of
        Inl e \<Rightarrow> Inl e
      | Inr st' \<Rightarrow> loop cs encodings i st')"

text \<open>
  The part of RoundTrip after the wrapped transport has returned \<open>res\<close>. The result is
  what RoundTrip returns, together with the response object \<open>res\<close> as the call leaves it:
  RoundTrip works on the object the transport returned. Where RoundTrip returns an error,
  the readers it has constructed are dropped with the bytes they hold.
\<close>

definition decompress ::
  "codecs \<Rightarrow> rawbody response \<Rightarrow> (error + body response) \<times> body response" where
  "decompress cs res =
     (let ce = Get (Header res) ''Content-Encoding'' in
      if length ce = 0 then
        (Inr (set_Body res (RawBody [] (Body res))), set_Body res (RawBody [] (Body res)))
      else
        let encodings = Split ce in
        case loop cs encodings (length encodings)
               \<lparr>body = RawBody [] (Body res), decompressed = False\<rparr> of
          Inl (GzipError err, st) \<Rightarrow>
            (Inl (CreateGzipReader err), set_Body res (RawBody [] (raw_of (body st))))
        | Inl (Unsupported encoding, st) \<Rightarrow>
            (Inl (ErrUnsupportedEncoding (set_Body res (raw_of (body st))) encoding),
             set_Body res (RawBody [] (raw_of (body st))))
        | Inr st \<Rightarrow>
            if \<not> decompressed st then
              (Inr (set_Body res (RawBody [] (Body res))), set_Body res (RawBody [] (Body res)))
            else
              (let res1 = set_Body res (body st);
                   res2 = res1\<lparr>Uncompressed := True\<rparr>;
                   res3 = res2\<lparr>ContentLength := - 1\<rparr>;
                   res4 = res3\<lparr>Header := Del (Header res3) ''Content-Encoding''\<rparr>;
                   res5 = res4\<lparr>Header := Del (Header res4) ''Content-Length''\<rparr>
               in (Inr res5, res5)))"

text \<open>
  The RoundTripper holds the optional transport \<open>Wrap\<close>; \<open>default_transport\<close> stands for
  http.DefaultTransport. A transport maps the request to its error or its response.
\<close>

type_synonym transport = "request \<Rightarrow> string + rawbody response"

record RoundTripper =
  Wrap :: "transport option"

definition wrapped :: "transport \<Rightarrow> RoundTripper \<Rightarrow> transport" where
  "wrapped default_transport r = (case Wrap r of None \<Rightarrow> default_transport | Some t \<Rightarrow> t)"

definition RoundTrip ::
  "codecs \<Rightarrow> transport \<Rightarrow> RoundTripper \<Rightarrow> request \<Rightarrow>
     (error + body response) \<times> body response option" where
  "RoundTrip cs default_transport r req =
     (let w = wrapped default_transport r in
      case w req of
        Inl err \<Rightarrow> (Inl (TransportError err), None)
      | Inr res \<Rightarrow> (let (ret, obj) = decompress cs res in (ret, Some obj)))"

section \<open>A table of decoders to run RoundTrip on\<close>

text \<open>
  The theorems below hold for every table of decoders. To run RoundTrip on concrete
  bytes, \<open>stored_codecs\<close> follows compress/gzip and compress/flate on the streams that
  need no Huffman decoding: a deflate stream of stored blocks (RFC 1951, BTYPE 00), and
  a gzip stream (RFC 1952) of one member whose header has no optional field (FLG 0),
  with its CRC-32 and length checked. A stream that asks for more than this is
  reported with the error \<open>outside\<close> of the table's own, and so is every brotli stream.
\<close>

definition outside :: string where
  "outside = ''stored_codecs: stream outside the table''"

definition u8 :: "char \<Rightarrow> int" where
  "u8 c = of_char c"

text \<open>The little-endian number in a byte string.\<close>

fun le :: "bytes \<Rightarrow> int" where
  "le [] = 0"
| "le (c # cs) = u8 c + 256 * le cs"

text \<open>The error of a reader whose input ends too early: io.ErrUnexpectedEOF, or the
  error that ended the input.\<close>

definition noEOF :: "string option \<Rightarrow> string" where
  "noEOF e = (case e of None \<Rightarrow> ''unexpected EOF'' | Some x \<Rightarrow> x)"

text \<open>
  The flate reader on stored blocks: the bytes decoded, the error or the end of the
  deflate stream, and the input after the final block. Bit 0 of a block's first byte
  is BFINAL, bits 1 and 2 are BTYPE; BTYPE 3 is reserved, and a stored block whose NLEN
  is not the complement of its LEN is corrupt (Go's message also names the offset).
\<close>

function inflate_stored :: "string option \<Rightarrow> bytes \<Rightarrow> bytes \<times> string option \<times> bytes" where
  "inflate_stored e [] = ([], Some (noEOF e), [])"
| "inflate_stored e (h # t) =
     (if (u8 h div 2) mod 4 = 0 then
        (if length t < 4 then ([], Some (noEOF e), [])
         else if le (take 2 t) + le (take 2 (drop 2 t)) \<noteq> 65535 then
           ([], Some ''flate: corrupt input'', [])
         else if length (drop 4 t) < nat (le (take 2 t)) then
           (drop 4 t, Some (noEOF e), [])
         else if odd (u8 h) then
           (take (nat (le (take 2 t))) (drop 4 t), None, drop (nat (le (take 2 t))) (drop 4 t))
         else
           (case inflate_stored e (drop (nat (le (take 2 t))) (drop 4 t)) of
              (out, err, rest) \<Rightarrow> (take (nat (le (take 2 t))) (drop 4 t) @ out, err, rest)))
      else if (u8 h div 2) mod 4 = 3 then ([], Some ''flate: corrupt input'', [])
      else ([], Some outside, []))"
  by pat_completeness auto
termination
  by (relation "measure (\<lambda>(e, d). length d)") auto

definition stored_flate_Read :: "outcome \<Rightarrow> outcome" where
  "stored_flate_Read below =
     (case inflate_stored (snd below) (fst below) of (out, err, rest) \<Rightarrow> (out, err))"

text \<open>CRC-32 (IEEE), bit by bit, as hash/crc32 computes it.\<close>

definition crc32_step :: "int \<Rightarrow> int" where
  "crc32_step c = (if odd c then Bit_Operations.xor (c div 2) 0xEDB88320 else c div 2)"

definition crc32_byte :: "int \<Rightarrow> char \<Rightarrow> int" where
  "crc32_byte c b = (crc32_step ^^ 8) (Bit_Operations.xor c (u8 b))"

definition crc32 :: "bytes \<Rightarrow> int" where
  "crc32 bs = Bit_Operations.xor (foldl crc32_byte 0xFFFFFFFF bs) 0xFFFFFFFF"

text \<open>
  gzip.NewReader reads the ten bytes of the header and checks the two magic bytes and
  the compression method.
\<close>

definition stored_gzip_NewReader :: "outcome \<Rightarrow> string option" where
  "stored_gzip_NewReader below =
     (let d = fst below; e = snd below in
      if length d < 10 then
        Some (if d = [] then (case e of None \<Rightarrow> ''EOF'' | Some x \<Rightarrow> x) else noEOF e)
      else if take 3 d \<noteq> [CHR 0x1F, CHR 0x8B, CHR 0x08] then Some ''gzip: invalid header''
      else if d ! 3 \<noteq> CHR 0x00 then Some outside
      else None)"

text \<open>
  The gzip reader: the deflate stream after the header, then the trailer with the
  CRC-32 and the length of the decoded bytes, then the end of the input.
\<close>

definition stored_gzip_Read :: "outcome \<Rightarrow> outcome" where
  "stored_gzip_Read below =
     (case stored_gzip_NewReader below of
        Some x \<Rightarrow> ([], Some x)
      | None \<Rightarrow>
         (case inflate_stored (snd below) (drop 10 (fst below)) of
            (out, Some x, rest) \<Rightarrow> (out, Some x)
          | (out, None, rest) \<Rightarrow>
              if length rest < 8 then (out, Some (noEOF (snd below)))
              else if le (take 4 rest) \<noteq> crc32 out
                      \<or> le (take 4 (drop 4 rest)) \<noteq> int (length out) mod 4294967296
                then (out, Some ''gzip: invalid checksum'')
              else if drop 8 rest = [] then (out, snd below)
              else (out, Some outside)))"

text \<open>
  gzip.NewReader reads through a bufio.Reader of 4096 bytes: from a body of at most
  4096 bytes that hands over all it has at a Read, as a bytes.Buffer does, it takes
  everything.
\<close>

definition stored_codecs :: codecs where
  "stored_codecs =
     \<lparr>gzip_NewReader = stored_gzip_NewReader,
      gzip_NewReader_draws = (\<lambda>ls below. min 4096 (length (fst below))),
      gzip_Read = stored_gzip_Read,
      gzip_Close = (\<lambda>below. None),
      flate_Read = stored_flate_Read,
      flate_Close = (\<lambda>below. None),
      brotli_Read = (\<lambda>below. ([], Some outside))\<rparr>"

text \<open>
  The bytes of \<open>foobarbaz\<close> in a stored deflate block, that block in a gzip member, and
  the two framings applied one after the other in either order.
\<close>

definition foobarbaz_deflate :: bytes where
  "foobarbaz_deflate = [CHR 0x01, CHR 0x09, CHR 0x00, CHR 0xF6, CHR 0xFF] @ ''foobarbaz''"

definition gzip_header :: bytes where
  "gzip_header =
     [CHR 0x1F, CHR 0x8B, CHR 0x08, CHR 0x00, CHR 0x00, CHR 0x00, CHR 0x00, CHR 0x00,
      CHR 0x00, CHR 0xFF]"

definition foobarbaz_gzip :: bytes where
  "foobarbaz_gzip =
     gzip_header @ foobarbaz_deflate
     @ [CHR 0xAA, CHR 0x27, CHR 0x78, CHR 0x1A, CHR 0x09, CHR 0x00, CHR 0x00, CHR 0x00]"

definition foobarbaz_deflate_gzip :: bytes where
  "foobarbaz_deflate_gzip =
     gzip_header @ [CHR 0x01, CHR 0x0E, CHR 0x00, CHR 0xF1, CHR 0xFF] @ foobarbaz_deflate
     @ [CHR 0x66, CHR 0xDB, CHR 0x61, CHR 0xB7, CHR 0x0E, CHR 0x00, CHR 0x00, CHR 0x00]"

definition foobarbaz_gzip_deflate :: bytes where
  "foobarbaz_gzip_deflate =
     [CHR 0x01, CHR 0x20, CHR 0x00, CHR 0xDF, CHR 0xFF] @ foobarbaz_gzip"

text \<open>The bytes 1, 2, 3 in a stored deflate block in a gzip member.\<close>

definition bytes123_gzip :: bytes where
  "bytes123_gzip =
     gzip_header
     @ [CHR 0x01, CHR 0x03, CHR 0x00, CHR 0xFC, CHR 0xFF, CHR 0x01, CHR 0x02, CHR 0x03]
     @ [CHR 0x1D, CHR 0x80, CHR 0xBC, CHR 0x55, CHR 0x03, CHR 0x00, CHR 0x00, CHR 0x00]"

section \<open>The test's stub transport and responses\<close>

text \<open>\<open>strconv.Itoa\<close> on a length.\<close>

function Itoa :: "nat \<Rightarrow> string" where
  "Itoa n = (if n < 10 then [char_of (48 + n)] else Itoa (n div 10) @ [char_of (48 + n mod 10)])"
  by pat_completeness auto
termination
  by (relation "measure id") auto

text \<open>
  \<open>newResponse\<close> of the test: status 200, the Content-Length header and field set to the
  length of the body, the Content-Encoding header set unless it is empty, and the body
  an io.NopCloser of a bytes.Buffer.
\<close>

definition newResponse :: "bytes \<Rightarrow> string \<Rightarrow> rawbody response" where
  "newResponse b contentEncoding =
     \<lparr>StatusCode = 200,
      Header = (let h = [''Content-Length'' \<mapsto> [Itoa (length b)]] in
                if contentEncoding \<noteq> [] then h(''Content-Encoding'' \<mapsto> [contentEncoding])
                else h),
      Body = \<lparr>unread = b, read_err = None, close_err = None\<rparr>,
      ContentLength = int (length b),
      Uncompressed = False\<rparr>"

text \<open>\<open>stubRoundTripper\<close> of the test returns its response and its error.\<close>

definition stubRoundTripper :: "rawbody response \<Rightarrow> RoundTripper" where
  "stubRoundTripper res = \<lparr>Wrap = Some (\<lambda>req. Inr res)\<rparr>"

text \<open>http.DefaultTransport is not reached when \<open>Wrap\<close> is set; here it fails.\<close>

definition no_transport :: transport where
  "no_transport = (\<lambda>req. Inl ''no transport'')"

section \<open>Tokens, the decoders they name, and the passes of the loop\<close>

text \<open>
  The token list of a header value: its pieces between the commas, trimmed, in the
  order of the text.
\<close>

definition tokens :: "string \<Rightarrow> string list" where
  "tokens ce = map TrimSpace (Split ce)"

text \<open>The decoder that a token names, if it names one.\<close>

definition decoder_of :: "string \<Rightarrow> encoding option" where
  "decoder_of t =
     (if t = ''gzip'' then Some Gzip
      else if t = ''deflate'' then Some Deflate
      else if t = ''br'' then Some Br
      else None)"

text \<open>The decoders that the tokens of a list name, in the order of the list.\<close>

fun decoders :: "string list \<Rightarrow> encoding list" where
  "decoders [] = []"
| "decoders (t # ts) = (case decoder_of t of None \<Rightarrow> decoders ts | Some e \<Rightarrow> e # decoders ts)"

text \<open>A token that the switch recognises.\<close>

definition recognized :: "string \<Rightarrow> bool" where
  "recognized t \<longleftrightarrow> t \<in> set [''gzip'', ''deflate'', ''br'', ''identity'', []]"

text \<open>
  The passes of the loop over a list of trimmed tokens, taken in the order of the list.
\<close>

fun passes ::
  "codecs \<Rightarrow> string list \<Rightarrow> loop_state \<Rightarrow> loop_error \<times> loop_state + loop_state" where
  "passes cs [] st = Inr st"
| "passes cs (t # ts) st =
     (case switch_encoding cs t st of
        Inl e \<Rightarrow> Inl e
      | Inr st' \<Rightarrow> passes cs ts st')"

text \<open>
  Every gzip reader for the tokens of a list is constructed without error, on a stream
  that delivers \<open>below\<close>: the reader of a token is constructed on the decoders of the
  tokens to its right.
\<close>

fun readers_construct :: "codecs \<Rightarrow> string list \<Rightarrow> outcome \<Rightarrow> bool" where
  "readers_construct cs [] below = True"
| "readers_construct cs (t # ts) below =
     (readers_construct cs ts below
      \<and> (if t = ''gzip''
         then gzip_NewReader cs (foldr (decoder_Read cs) (decoders ts) below) = None
         else True))"

text \<open>The letters of a token in lower case.\<close>

definition lower :: "char \<Rightarrow> char" where
  "lower c =
     (if (65::nat) \<le> of_char c \<and> of_char c \<le> (90::nat) then char_of (of_char c + (32::nat))
      else c)"

section \<open>The loop\<close>

lemma decoders_append: "decoders (xs @ ys) = decoders xs @ decoders ys"
  by (induction xs) (auto split: option.splits)

lemma ReadAll_draw: "ReadAll cs (draw n b) = ReadAll cs b"
  by (induction b) auto

lemma layers_draw: "layers (draw n b) = layers b"
  by (induction b) auto

text \<open>The loop takes the trimmed tokens from the last to the first.\<close>

lemma loop_passes:
  "n \<le> length encodings \<Longrightarrow>
   loop cs encodings n st = passes cs (rev (map TrimSpace (take n encodings))) st"
proof (induction n arbitrary: st)
  case 0
  then show ?case by simp
next
  case (Suc i)
  then have "take (Suc i) encodings = take i encodings @ [encodings ! i]"
    by (simp add: take_Suc_conv_app_nth)
  with Suc show ?case
    by (simp split: sum.splits)
qed

lemma loop_tokens:
  "loop cs (Split ce) (length (Split ce)) st = passes cs (rev (tokens ce)) st"
  by (simp add: loop_passes tokens_def)

lemma passes_append:
  "passes cs (xs @ ys) st =
     (case passes cs xs st of Inl e \<Rightarrow> Inl e | Inr st' \<Rightarrow> passes cs ys st')"
  by (induction xs arbitrary: st) (auto split: sum.splits)

lemma switch_encoding_Inr:
  assumes "switch_encoding cs t st = Inr st'"
  shows "layers (body st') = decoders [t] @ layers (body st)"
    and "ReadAll cs (body st') = foldr (decoder_Read cs) (decoders [t]) (ReadAll cs (body st))"
    and "decompressed st' = (decompressed st \<or> decoders [t] \<noteq> [])"
    and "recognized t"
  using assms
  by (auto simp: switch_encoding_def decoder_of_def recognized_def Let_def ReadAll_draw layers_draw
      split: if_splits option.splits)

lemma passes_Inr:
  assumes "passes cs xs st = Inr st'"
  shows "layers (body st') = decoders (rev xs) @ layers (body st)"
    and "ReadAll cs (body st') =
           foldr (decoder_Read cs) (decoders (rev xs)) (ReadAll cs (body st))"
    and "decompressed st' = (decompressed st \<or> decoders (rev xs) \<noteq> [])"
    and "\<forall>t \<in> set xs. recognized t"
  using assms
proof (induction xs arbitrary: st)
  case Nil
  {
    case 1 then show ?case by simp
  next
    case 2 then show ?case by simp
  next
    case 3 then show ?case by simp
  next
    case 4 then show ?case by simp
  }
next
  case (Cons t ts)
  {
    case 1
    then obtain st1 where s: "switch_encoding cs t st = Inr st1" and p: "passes cs ts st1 = Inr st'"
      by (auto split: sum.splits)
    show ?case
      using Cons.IH(1)[OF p] switch_encoding_Inr(1)[OF s] by (simp add: decoders_append)
  next
    case 2
    then obtain st1 where s: "switch_encoding cs t st = Inr st1" and p: "passes cs ts st1 = Inr st'"
      by (auto split: sum.splits)
    show ?case
      using Cons.IH(2)[OF p] switch_encoding_Inr(2)[OF s] by (simp add: decoders_append)
  next
    case 3
    then obtain st1 where s: "switch_encoding cs t st = Inr st1" and p: "passes cs ts st1 = Inr st'"
      by (auto split: sum.splits)
    show ?case
      using Cons.IH(3)[OF p] switch_encoding_Inr(3)[OF s] by (auto simp: decoders_append)
  next
    case 4
    then obtain st1 where s: "switch_encoding cs t st = Inr st1" and p: "passes cs ts st1 = Inr st'"
      by (auto split: sum.splits)
    show ?case
      using Cons.IH(4)[OF p] switch_encoding_Inr(4)[OF s] by simp
  }
qed

text \<open>An unsupported token ends the loop only after recognized ones.\<close>

lemma switch_encoding_Unsupported:
  "switch_encoding cs t st = Inl (Unsupported enc, ste) \<Longrightarrow>
   enc = t \<and> \<not> recognized t \<and> ste = st"
  by (auto simp: switch_encoding_def recognized_def Let_def split: if_splits option.splits)

lemma switch_encoding_GzipError:
  "switch_encoding cs t st = Inl (GzipError err, ste) \<Longrightarrow>
   t = ''gzip'' \<and> gzip_NewReader cs (ReadAll cs (body st)) = Some err"
  by (auto simp: switch_encoding_def Let_def split: if_splits option.splits)

lemma passes_Unsupported:
  "passes cs xs st = Inl (Unsupported enc, ste) \<Longrightarrow>
   \<exists>a b. xs = a @ enc # b \<and> (\<forall>t \<in> set a. recognized t) \<and> \<not> recognized enc"
proof (induction xs arbitrary: st)
  case Nil
  then show ?case by simp
next
  case (Cons t ts)
  show ?case
  proof (cases "switch_encoding cs t st")
    case (Inl e)
    with Cons.prems have "switch_encoding cs t st = Inl (Unsupported enc, ste)" by simp
    then have "enc = t" "\<not> recognized t"
      by (auto dest: switch_encoding_Unsupported)
    then have "t # ts = [] @ enc # ts \<and> (\<forall>t \<in> set []. recognized t) \<and> \<not> recognized enc"
      by simp
    then show ?thesis by blast
  next
    case (Inr st1)
    with Cons.prems have "passes cs ts st1 = Inl (Unsupported enc, ste)" by simp
    from Cons.IH[OF this] obtain a b where
      "ts = a @ enc # b" "\<forall>t \<in> set a. recognized t" "\<not> recognized enc" by blast
    moreover have "recognized t" using switch_encoding_Inr(4)[OF Inr] .
    ultimately have "t # ts = (t # a) @ enc # b \<and> (\<forall>t \<in> set (t # a). recognized t)
        \<and> \<not> recognized enc"
      by simp
    then show ?thesis by blast
  qed
qed

lemma passes_GzipError:
  "passes cs xs st = Inl (GzipError err, ste) \<Longrightarrow>
   \<exists>a b. xs = a @ ''gzip'' # b
     \<and> gzip_NewReader cs (foldr (decoder_Read cs) (decoders (rev a)) (ReadAll cs (body st)))
         = Some err"
proof (induction xs arbitrary: st)
  case Nil
  then show ?case by simp
next
  case (Cons t ts)
  show ?case
  proof (cases "switch_encoding cs t st")
    case (Inl e)
    with Cons.prems have "switch_encoding cs t st = Inl (GzipError err, ste)" by simp
    then have "t = ''gzip''" "gzip_NewReader cs (ReadAll cs (body st)) = Some err"
      by (auto dest: switch_encoding_GzipError)
    then have "t # ts = [] @ ''gzip'' # ts
      \<and> gzip_NewReader cs (foldr (decoder_Read cs) (decoders (rev [])) (ReadAll cs (body st)))
          = Some err"
      by simp
    then show ?thesis by blast
  next
    case (Inr st1)
    with Cons.prems have "passes cs ts st1 = Inl (GzipError err, ste)" by simp
    from Cons.IH[OF this] obtain a b where ab: "ts = a @ ''gzip'' # b"
      "gzip_NewReader cs (foldr (decoder_Read cs) (decoders (rev a)) (ReadAll cs (body st1)))
         = Some err"
      by blast
    have "ReadAll cs (body st1) = foldr (decoder_Read cs) (decoders [t]) (ReadAll cs (body st))"
      using switch_encoding_Inr(2)[OF Inr] .
    with ab have "t # ts = (t # a) @ ''gzip'' # b
      \<and> gzip_NewReader cs
          (foldr (decoder_Read cs) (decoders (rev (t # a))) (ReadAll cs (body st))) = Some err"
      by (simp add: decoders_append)
    then show ?thesis by blast
  qed
qed

text \<open>Recognized tokens whose gzip readers are constructed without error pass.\<close>

lemma readers_construct_snoc:
  "readers_construct cs (ts @ [t]) below \<longleftrightarrow>
     (if t = ''gzip'' then gzip_NewReader cs below = None else True)
     \<and> readers_construct cs ts (foldr (decoder_Read cs) (decoders [t]) below)"
  by (induction ts) (auto simp: decoders_append)

lemma switch_encoding_recognized:
  assumes "recognized t"
    and "t = ''gzip'' \<Longrightarrow> gzip_NewReader cs (ReadAll cs (body st)) = None"
  shows "\<exists>st'. switch_encoding cs t st = Inr st'"
  using assms
  by (auto simp: switch_encoding_def recognized_def Let_def)

lemma passes_succeeds:
  assumes "\<forall>t \<in> set xs. recognized t"
    and "readers_construct cs (rev xs) (ReadAll cs (body st))"
  shows "\<exists>st'. passes cs xs st = Inr st'"
  using assms
proof (induction xs arbitrary: st)
  case Nil
  then show ?case by simp
next
  case (Cons t ts)
  from Cons.prems(2) have
    g: "t = ''gzip'' \<Longrightarrow> gzip_NewReader cs (ReadAll cs (body st)) = None" and
    r: "readers_construct cs (rev ts) (foldr (decoder_Read cs) (decoders [t]) (ReadAll cs (body st)))"
    by (auto simp: readers_construct_snoc split: if_splits)
  from Cons.prems(1) have "recognized t" by simp
  from switch_encoding_recognized[OF this g] obtain st1 where
    s: "switch_encoding cs t st = Inr st1" by blast
  have "ReadAll cs (body st1) = foldr (decoder_Read cs) (decoders [t]) (ReadAll cs (body st))"
    using switch_encoding_Inr(2)[OF s] .
  with r have "readers_construct cs (rev ts) (ReadAll cs (body st1))" by simp
  with Cons.IH[of st1] Cons.prems(1) obtain st' where "passes cs ts st1 = Inr st'" by auto
  with s show ?case by simp
qed

lemma trim_left_Nil: "trim_left ps [] = []"
proof -
  have "lead_len ps [] = 0"
    by (auto simp: lead_len_def split: option.splits dest: find_Some_iff[THEN iffD1])
  then show ?thesis by (simp add: trim_left.simps)
qed

lemma TrimSpace_Nil: "TrimSpace [] = []"
  by (simp add: TrimSpace_def trim_left_Nil)

lemma tokens_Nil: "tokens [] = [[]]"
  by (simp add: tokens_def Split_def TrimSpace_Nil)

lemma switch_encoding_empty: "switch_encoding cs [] st = Inr st"
  by (simp add: switch_encoding_def)

text \<open>RoundTrip after the transport, in terms of the passes over the token list.\<close>

lemma decompress_passes:
  "decompress cs res =
     (case passes cs (rev (tokens (Get (Header res) ''Content-Encoding'')))
             \<lparr>body = RawBody [] (Body res), decompressed = False\<rparr> of
        Inl (GzipError err, st) \<Rightarrow>
          (Inl (CreateGzipReader err), set_Body res (RawBody [] (raw_of (body st))))
      | Inl (Unsupported encoding, st) \<Rightarrow>
          (Inl (ErrUnsupportedEncoding (set_Body res (raw_of (body st))) encoding),
           set_Body res (RawBody [] (raw_of (body st))))
      | Inr st \<Rightarrow>
          if \<not> decompressed st then
            (Inr (set_Body res (RawBody [] (Body res))), set_Body res (RawBody [] (Body res)))
          else
            (Inr ((set_Body res (body st))
                   \<lparr>Uncompressed := True, ContentLength := - 1,
                    Header := Del (Del (Header res) ''Content-Encoding'') ''Content-Length''\<rparr>),
             (set_Body res (body st))
                   \<lparr>Uncompressed := True, ContentLength := - 1,
                    Header := Del (Del (Header res) ''Content-Encoding'') ''Content-Length''\<rparr>))"
proof (cases "Get (Header res) ''Content-Encoding'' = []")
  case True
  then show ?thesis
    by (simp add: decompress_def tokens_Nil switch_encoding_empty)
next
  case False
  then show ?thesis
    by (simp add: decompress_def Let_def loop_tokens set_Body_def
        split: sum.splits prod.splits loop_error.splits)
qed

lemma RoundTrip_wrapped:
  "wrapped dt r req = Inr res \<Longrightarrow>
   RoundTrip cs dt r req = (fst (decompress cs res), Some (snd (decompress cs res)))"
  by (simp add: RoundTrip_def split: prod.splits)

text \<open>The stub transport and its responses.\<close>

lemma wrapped_stub: "wrapped dt (stubRoundTripper res) req = Inr res"
  by (simp add: wrapped_def stubRoundTripper_def)

lemma Get_newResponse: "Get (Header (newResponse b ce)) ''Content-Encoding'' = ce"
  by (simp add: newResponse_def Get_def Let_def)

lemma Body_newResponse:
  "Body (newResponse b ce) = \<lparr>unread = b, read_err = None, close_err = None\<rparr>"
  by (simp add: newResponse_def)

text \<open>The passes over the tokens to the right of a token, when these are fine.\<close>

lemma passes_right_part:
  assumes "\<forall>t \<in> set post. recognized t"
    and "readers_construct cs post (ReadAll cs (body st))"
  shows "\<exists>st1. passes cs (rev (pre @ t # post)) st = passes cs (t # rev pre) st1
           \<and> ReadAll cs (body st1) = foldr (decoder_Read cs) (decoders post) (ReadAll cs (body st))
           \<and> layers (body st1) = decoders post @ layers (body st)"
proof -
  from assms have "\<exists>st1. passes cs (rev post) st = Inr st1"
    by (intro passes_succeeds) simp_all
  then obtain st1 where p: "passes cs (rev post) st = Inr st1" by blast
  have "passes cs (rev (pre @ t # post)) st = passes cs (t # rev pre) st1"
    using p by (simp add: passes_append del: passes.simps)
  with passes_Inr(1,2)[OF p] show ?thesis by auto
qed

section \<open>The order of the decoders\<close>

lemma tokens_gzip_deflate: "tokens ''gzip, deflate'' = [''gzip'', ''deflate'']"
  by code_simp

lemma passes_gzip_deflate:
  "passes stored_codecs [''deflate'', ''gzip'']
     \<lparr>body = RawBody [] \<lparr>unread = foobarbaz_gzip_deflate, read_err = None, close_err = None\<rparr>,
      decompressed = False\<rparr>
   = Inr \<lparr>body = cascadeReadCloser Gzip (cascadeReadCloser Deflate
            (RawBody foobarbaz_gzip_deflate \<lparr>unread = [], read_err = None, close_err = None\<rparr>)),
          decompressed = True\<rparr>"
  by code_simp

text \<open>
  C1. Whenever RoundTrip returns a response, the decoders on its body are, from the
  outermost to the innermost, those that the tokens of the Content-Encoding header
  name from the first to the last: the decoder of the rightmost token reads the bytes
  of the transport's body and the decoder of the leftmost token delivers the bytes the
  caller reads, because the loop walks the token list from the last to the first.
\<close>

theorem decoders_applied_in_reverse_token_order:
  assumes "wrapped dt r req = Inr res"
    and "fst (RoundTrip cs dt r req) = Inr res'"
  shows "layers (Body res') = decoders (tokens (Get (Header res) ''Content-Encoding''))
       \<and> ReadAll cs (Body res') =
           foldr (decoder_Read cs) (decoders (tokens (Get (Header res) ''Content-Encoding'')))
             (raw_ReadAll (Body res))"
proof -
  let ?ts = "tokens (Get (Header res) ''Content-Encoding'')"
  let ?st0 = "\<lparr>body = RawBody [] (Body res), decompressed = False\<rparr>"
  from assms have d: "fst (decompress cs res) = Inr res'"
    by (simp add: RoundTrip_wrapped)
  then obtain st where p: "passes cs (rev ?ts) ?st0 = Inr st"
    by (auto simp: decompress_passes split: sum.splits prod.splits loop_error.splits)
  note facts = passes_Inr(1-3)[OF p]
  show ?thesis
  proof (cases "decompressed st")
    case True
    with d p have "Body res' = body st"
      by (auto simp: decompress_passes set_Body_def)
    with facts show ?thesis by (simp add: raw_ReadAll_def)
  next
    case False
    with d p have "Body res' = RawBody [] (Body res)"
      by (auto simp: decompress_passes set_Body_def)
    with facts False show ?thesis by (simp add: raw_ReadAll_def)
  qed
qed

theorem decoders_applied_in_reverse_token_order_witness:
  "layers (Body (projr (fst (RoundTrip stored_codecs no_transport
      (stubRoundTripper (newResponse foobarbaz_gzip_deflate ''gzip, deflate'')) ''GET /''))))
   = [Gzip, Deflate]"
proof -
  let ?res = "newResponse foobarbaz_gzip_deflate ''gzip, deflate''"
  let ?out = "fst (RoundTrip stored_codecs no_transport (stubRoundTripper ?res) ''GET /'')"
  have w: "wrapped no_transport (stubRoundTripper ?res) ''GET /'' = Inr ?res"
    by (rule wrapped_stub)
  have "\<exists>y. ?out = Inr y"
    by (simp add: RoundTrip_wrapped[OF w] decompress_passes Get_newResponse Body_newResponse
        tokens_gzip_deflate passes_gzip_deflate del: passes.simps)
  then have o: "?out = Inr (projr ?out)" by auto
  from decoders_applied_in_reverse_token_order[OF w o]
  show ?thesis
    by (simp add: Get_newResponse tokens_gzip_deflate decoder_of_def)
qed

section \<open>A gzip response\<close>

lemma tokens_gzip: "tokens ''gzip'' = [''gzip'']"
  by code_simp

lemma gzip_foobarbaz:
  "stored_gzip_NewReader (foobarbaz_gzip, None) = None"
  "stored_gzip_Read (foobarbaz_gzip, None) = (''foobarbaz'', None)"
  by code_simp+

text \<open>
  C3. A response whose Content-Encoding header is \<open>gzip\<close> and whose body is a gzip
  stream of a plaintext (the gzip reader is constructed on it without error and reads
  it to the plaintext and the end of the stream): RoundTrip returns a response whose
  body reads back the plaintext, whose Content-Encoding and Content-Length headers are
  absent, whose ContentLength is -1 and whose Uncompressed flag is true.
\<close>

theorem gzip_response_is_decoded:
  assumes "wrapped dt r req = Inr res"
    and "Get (Header res) ''Content-Encoding'' = ''gzip''"
    and "gzip_NewReader cs (raw_ReadAll (Body res)) = None"
    and "gzip_Read cs (raw_ReadAll (Body res)) = (plain, None)"
  shows "\<exists>res'. fst (RoundTrip cs dt r req) = Inr res'
           \<and> ReadAll cs (Body res') = (plain, None)
           \<and> Header res' ''Content-Encoding'' = None
           \<and> Header res' ''Content-Length'' = None
           \<and> ContentLength res' = - 1
           \<and> Uncompressed res'"
  using assms
  by (simp add: RoundTrip_wrapped decompress_passes tokens_gzip switch_encoding_def
      raw_ReadAll_def Let_def set_Body_def Del_def)

theorem gzip_response_is_decoded_witness:
  "ReadAll stored_codecs (Body (projr (fst (RoundTrip stored_codecs no_transport
      (stubRoundTripper (newResponse foobarbaz_gzip ''gzip'')) ''GET /''))))
   = (''foobarbaz'', None)
   \<and> ContentLength (projr (fst (RoundTrip stored_codecs no_transport
      (stubRoundTripper (newResponse foobarbaz_gzip ''gzip'')) ''GET /''))) = - 1"
proof -
  let ?res = "newResponse foobarbaz_gzip ''gzip''"
  have w: "wrapped no_transport (stubRoundTripper ?res) ''GET /'' = Inr ?res"
    by (rule wrapped_stub)
  have g: "Get (Header ?res) ''Content-Encoding'' = ''gzip''"
    by (rule Get_newResponse)
  have n: "gzip_NewReader stored_codecs (raw_ReadAll (Body ?res)) = None"
    by (simp add: Body_newResponse raw_ReadAll_def stored_codecs_def gzip_foobarbaz)
  have d: "gzip_Read stored_codecs (raw_ReadAll (Body ?res)) = (''foobarbaz'', None)"
    by (simp add: Body_newResponse raw_ReadAll_def stored_codecs_def gzip_foobarbaz)
  from gzip_response_is_decoded[OF w g n d]
  show ?thesis by auto
qed

section \<open>The headers after a decode\<close>

text \<open>
  C7. Whenever RoundTrip returns a response after constructing at least one decoder,
  the header map of the response is that of the transport's response without the
  entries Content-Encoding and Content-Length and with every other entry as it was;
  apart from the header map only ContentLength (set to -1), the Uncompressed flag (set)
  and the body (now a cascade) differ from the transport's response.
\<close>

theorem decode_removes_only_encoding_and_length:
  assumes "wrapped dt r req = Inr res"
    and "fst (RoundTrip cs dt r req) = Inr res'"
    and "decoders (tokens (Get (Header res) ''Content-Encoding'')) \<noteq> []"
  shows "Header res' = (Header res)(''Content-Encoding'' := None, ''Content-Length'' := None)
       \<and> StatusCode res' = StatusCode res
       \<and> ContentLength res' = - 1
       \<and> Uncompressed res'
       \<and> layers (Body res') \<noteq> []"
proof -
  let ?ts = "tokens (Get (Header res) ''Content-Encoding'')"
  let ?st0 = "\<lparr>body = RawBody [] (Body res), decompressed = False\<rparr>"
  from assms have d: "fst (decompress cs res) = Inr res'"
    by (simp add: RoundTrip_wrapped)
  then obtain st where p: "passes cs (rev ?ts) ?st0 = Inr st"
    by (auto simp: decompress_passes split: sum.splits prod.splits loop_error.splits)
  from passes_Inr(3)[OF p] assms(3) have dec: "decompressed st" by simp
  from passes_Inr(1)[OF p] assms(3) have l: "layers (body st) \<noteq> []" by simp
  from d p dec have
    "res' = (set_Body res (body st))
       \<lparr>Uncompressed := True, ContentLength := - 1,
        Header := Del (Del (Header res) ''Content-Encoding'') ''Content-Length''\<rparr>"
    by (simp add: decompress_passes)
  with l show ?thesis
    by (simp add: set_Body_def Del_def)
qed

theorem decode_removes_only_encoding_and_length_witness:
  "Header (projr (fst (RoundTrip stored_codecs no_transport
      (stubRoundTripper
        ((newResponse foobarbaz_gzip_deflate ''gzip, deflate'')
           \<lparr>Header := (Header (newResponse foobarbaz_gzip_deflate ''gzip, deflate''))
                        (''Content-Type'' \<mapsto> [''text/plain''])\<rparr>))
      ''GET /''))) = [''Content-Type'' \<mapsto> [''text/plain'']]"
proof -
  let ?res0 = "newResponse foobarbaz_gzip_deflate ''gzip, deflate''"
  let ?res = "?res0\<lparr>Header := (Header ?res0)(''Content-Type'' \<mapsto> [''text/plain''])\<rparr>"
  let ?out = "fst (RoundTrip stored_codecs no_transport (stubRoundTripper ?res) ''GET /'')"
  have w: "wrapped no_transport (stubRoundTripper ?res) ''GET /'' = Inr ?res"
    by (rule wrapped_stub)
  have g: "Get (Header ?res) ''Content-Encoding'' = ''gzip, deflate''"
    by (simp add: newResponse_def Get_def Let_def)
  have b: "Body ?res = \<lparr>unread = foobarbaz_gzip_deflate, read_err = None, close_err = None\<rparr>"
    by (simp add: newResponse_def)
  have g': "Get ((Header ?res0)(''Content-Type'' \<mapsto> [''text/plain''])) ''Content-Encoding''
      = ''gzip, deflate''"
    using g by simp
  have dd: "fst (decompress stored_codecs ?res) = Inr (projr (fst (decompress stored_codecs ?res)))"
    unfolding decompress_passes g b tokens_gzip_deflate
    by (simp add: passes_gzip_deflate del: passes.simps)
  have "\<exists>y. ?out = Inr y"
    unfolding RoundTrip_wrapped[OF w] using dd by (metis fst_conv)
  then have o: "?out = Inr (projr ?out)" by auto
  have n: "decoders (tokens (Get (Header ?res) ''Content-Encoding'')) \<noteq> []"
    unfolding g tokens_gzip_deflate by (simp add: decoder_of_def)
  from decode_removes_only_encoding_and_length[OF w o n]
  have "Header (projr ?out)
        = (Header ?res)(''Content-Encoding'' := None, ''Content-Length'' := None)"
    by simp
  also have "\<dots> = [''Content-Type'' \<mapsto> [''text/plain'']]"
    by (auto simp: newResponse_def Let_def fun_eq_iff)
  finally show ?thesis .
qed

section \<open>Unsupported encodings\<close>

lemma tokens_foo_bar: "tokens ''foo, bar'' = [''foo'', ''bar'']"
  by code_simp

lemma filter_unrecognized_split:
  assumes "ts = a @ enc # b" and "\<forall>t \<in> set b. recognized t" and "\<not> recognized enc"
  shows "filter (\<lambda>t. \<not> recognized t) ts \<noteq> []
       \<and> last (filter (\<lambda>t. \<not> recognized t) ts) = enc"
proof -
  have "filter (\<lambda>t. \<not> recognized t) b = []"
    using assms(2) by (simp add: filter_empty_conv)
  with assms(1,3) show ?thesis by simp
qed

text \<open>
  C10. Whenever RoundTrip returns an ErrUnsupportedEncoding, the header has an
  unrecognized token and the error carries the rightmost one: the loop examines the
  tokens from the right and stops at the first it does not recognize. For
  \<open>foo, bar\<close> the error carries \<open>bar\<close>.
\<close>

theorem unsupported_encoding_is_rightmost_unrecognized:
  assumes "wrapped dt r req = Inr res"
    and "fst (RoundTrip cs dt r req) = Inl (ErrUnsupportedEncoding orig enc)"
  shows "filter (\<lambda>t. \<not> recognized t) (tokens (Get (Header res) ''Content-Encoding'')) \<noteq> []
       \<and> enc = last (filter (\<lambda>t. \<not> recognized t)
                       (tokens (Get (Header res) ''Content-Encoding'')))"
proof -
  let ?ts = "tokens (Get (Header res) ''Content-Encoding'')"
  let ?st0 = "\<lparr>body = RawBody [] (Body res), decompressed = False\<rparr>"
  from assms have d: "fst (decompress cs res) = Inl (ErrUnsupportedEncoding orig enc)"
    by (simp add: RoundTrip_wrapped)
  then obtain st where p: "passes cs (rev ?ts) ?st0 = Inl (Unsupported enc, st)"
    by (auto simp: decompress_passes split: sum.splits prod.splits loop_error.splits if_splits)
  from passes_Unsupported[OF p] obtain a b where
    ab: "rev ?ts = a @ enc # b" "\<forall>t \<in> set a. recognized t" "\<not> recognized enc"
    by blast
  from ab(1) have "rev (rev ?ts) = rev (a @ enc # b)" by simp
  then have "?ts = rev b @ enc # rev a" by simp
  moreover from ab(2) have "\<forall>t \<in> set (rev a). recognized t" by simp
  ultimately show ?thesis
    using filter_unrecognized_split[of ?ts "rev b" enc "rev a"] ab(3) by simp
qed

lemma passes_foo_bar:
  "passes stored_codecs [''bar'', ''foo'']
     \<lparr>body = RawBody [] \<lparr>unread = ''foobarbaz'', read_err = None, close_err = None\<rparr>,
      decompressed = False\<rparr>
   = Inl (Unsupported ''bar'',
      \<lparr>body = RawBody [] \<lparr>unread = ''foobarbaz'', read_err = None, close_err = None\<rparr>,
       decompressed = False\<rparr>)"
  by code_simp

theorem unsupported_encoding_is_rightmost_unrecognized_witness:
  "Encoding (projl (fst (RoundTrip stored_codecs no_transport
      (stubRoundTripper (newResponse ''foobarbaz'' ''foo, bar'')) ''GET /''))) = ''bar''"
proof -
  let ?res = "newResponse ''foobarbaz'' ''foo, bar''"
  let ?out = "fst (RoundTrip stored_codecs no_transport (stubRoundTripper ?res) ''GET /'')"
  have w: "wrapped no_transport (stubRoundTripper ?res) ''GET /'' = Inr ?res"
    by (rule wrapped_stub)
  have "\<exists>orig enc. ?out = Inl (ErrUnsupportedEncoding orig enc)"
    unfolding RoundTrip_wrapped[OF w] decompress_passes Get_newResponse Body_newResponse
      tokens_foo_bar
    by (simp add: passes_foo_bar del: passes.simps)
  then have o: "?out = Inl (ErrUnsupportedEncoding (Original (projl ?out)) (Encoding (projl ?out)))"
    by auto
  from unsupported_encoding_is_rightmost_unrecognized[OF w o]
  show ?thesis
    unfolding Get_newResponse tokens_foo_bar by (simp add: recognized_def)
qed

section \<open>A gzip reader that cannot be constructed\<close>

text \<open>
  C8. When the loop reaches a \<open>gzip\<close> token (the tokens to its right are recognized
  and their gzip readers were constructed) and gzip.NewReader fails on the stream below
  it, RoundTrip returns an error that wraps the error of gzip.NewReader behind the
  context \<open>decompress: create gzip reader: \<close>, and the response object keeps its
  headers, its ContentLength, its Uncompressed flag and its status.
\<close>

theorem gzip_construction_failure_is_wrapped:
  assumes "wrapped dt r req = Inr res"
    and "tokens (Get (Header res) ''Content-Encoding'') = pre @ ''gzip'' # post"
    and "\<forall>t \<in> set post. recognized t"
    and "readers_construct cs post (raw_ReadAll (Body res))"
    and "gzip_NewReader cs (foldr (decoder_Read cs) (decoders post) (raw_ReadAll (Body res)))
           = Some err"
  shows "fst (RoundTrip cs dt r req) = Inl (CreateGzipReader err)
       \<and> Error (CreateGzipReader err) = ''decompress: create gzip reader: '' @ err
       \<and> Unwrap (CreateGzipReader err) = Some err
       \<and> (\<exists>obj. snd (RoundTrip cs dt r req) = Some obj
             \<and> Header obj = Header res
             \<and> ContentLength obj = ContentLength res
             \<and> Uncompressed obj = Uncompressed res
             \<and> StatusCode obj = StatusCode res)"
proof -
  let ?st0 = "\<lparr>body = RawBody [] (Body res), decompressed = False\<rparr>"
  have r0: "ReadAll cs (body ?st0) = raw_ReadAll (Body res)"
    by (simp add: raw_ReadAll_def)
  from passes_right_part[of post cs ?st0 pre "''gzip''"] assms(3,4) r0
  obtain st1 where
    p: "passes cs (rev (pre @ ''gzip'' # post)) ?st0 = passes cs (''gzip'' # rev pre) st1" and
    rd: "ReadAll cs (body st1) = foldr (decoder_Read cs) (decoders post) (raw_ReadAll (Body res))"
    by auto
  from rd assms(5) have "\<exists>ste. switch_encoding cs ''gzip'' st1 = Inl (GzipError err, ste)"
    by (simp add: switch_encoding_def Let_def)
  then obtain ste where "passes cs (''gzip'' # rev pre) st1 = Inl (GzipError err, ste)"
    by auto
  with p have "passes cs (rev (tokens (Get (Header res) ''Content-Encoding''))) ?st0
      = Inl (GzipError err, ste)"
    by (simp only: assms(2))
  then have "decompress cs res
      = (Inl (CreateGzipReader err), set_Body res (RawBody [] (raw_of (body ste))))"
    by (simp add: decompress_passes)
  then show ?thesis
    by (simp add: RoundTrip_wrapped[OF assms(1)] set_Body_def)
qed

lemma inflated_foobarbaz_is_no_gzip:
  "stored_gzip_NewReader (stored_flate_Read (foobarbaz_deflate, None)) = Some ''unexpected EOF''"
  by code_simp

theorem gzip_construction_failure_is_wrapped_witness:
  "fst (RoundTrip stored_codecs no_transport
      (stubRoundTripper (newResponse foobarbaz_deflate ''gzip, deflate'')) ''GET /'')
   = Inl (CreateGzipReader ''unexpected EOF'')
   \<and> Error (CreateGzipReader ''unexpected EOF'')
     = ''decompress: create gzip reader: unexpected EOF''"
proof -
  let ?res = "newResponse foobarbaz_deflate ''gzip, deflate''"
  have w: "wrapped no_transport (stubRoundTripper ?res) ''GET /'' = Inr ?res"
    by (rule wrapped_stub)
  have t: "tokens (Get (Header ?res) ''Content-Encoding'') = [] @ ''gzip'' # [''deflate'']"
    unfolding Get_newResponse tokens_gzip_deflate by simp
  have r: "\<forall>t \<in> set [''deflate'']. recognized t"
    by (simp add: recognized_def)
  have c: "readers_construct stored_codecs [''deflate''] (raw_ReadAll (Body ?res))" by simp
  have e: "gzip_NewReader stored_codecs
      (foldr (decoder_Read stored_codecs) (decoders [''deflate'']) (raw_ReadAll (Body ?res)))
      = Some ''unexpected EOF''"
    using inflated_foobarbaz_is_no_gzip
    by (simp add: Body_newResponse raw_ReadAll_def stored_codecs_def decoder_of_def)
  from gzip_construction_failure_is_wrapped[OF w t r c e]
  show ?thesis by simp
qed

section \<open>Letter case\<close>

text \<open>A token that differs from a supported name only in the case of letters.\<close>

lemma case_variant_unrecognized:
  assumes "map lower t \<in> set [''gzip'', ''deflate'', ''br'', ''identity'']"
    and "t \<noteq> map lower t"
  shows "\<not> recognized t"
proof
  assume "recognized t"
  then have "t \<in> set [''gzip'', ''deflate'', ''br'', ''identity'', []]"
    by (simp add: recognized_def)
  then have "map lower t = t"
    by (auto simp: lower_def)
  with assms(2) show False by simp
qed

text \<open>
  C9 (amended). The switch compares the trimmed token with the supported names exactly,
  letter case included. A token that differs from \<open>gzip\<close>, \<open>deflate\<close>, \<open>br\<close> or
  \<open>identity\<close> only in letter case is not recognized: when every token to its right is
  recognized and the gzip readers of those tokens are constructed without error,
  RoundTrip returns an ErrUnsupportedEncoding that carries the token, and the response
  object keeps its headers, its ContentLength and its Uncompressed flag.
\<close>

theorem case_variant_is_unsupported:
  assumes "wrapped dt r req = Inr res"
    and "tokens (Get (Header res) ''Content-Encoding'') = pre @ t # post"
    and "map lower t \<in> set [''gzip'', ''deflate'', ''br'', ''identity'']"
    and "t \<noteq> map lower t"
    and "\<forall>u \<in> set post. recognized u"
    and "readers_construct cs post (raw_ReadAll (Body res))"
  shows "\<exists>orig obj. RoundTrip cs dt r req = (Inl (ErrUnsupportedEncoding orig t), Some obj)
           \<and> Header obj = Header res
           \<and> ContentLength obj = ContentLength res
           \<and> Uncompressed obj = Uncompressed res"
proof -
  let ?st0 = "\<lparr>body = RawBody [] (Body res), decompressed = False\<rparr>"
  have r0: "ReadAll cs (body ?st0) = raw_ReadAll (Body res)"
    by (simp add: raw_ReadAll_def)
  from passes_right_part[of post cs ?st0 pre t] assms(5,6) r0
  obtain st1 where
    p: "passes cs (rev (pre @ t # post)) ?st0 = passes cs (t # rev pre) st1"
    by auto
  have "\<not> recognized t"
    using assms(3,4) by (rule case_variant_unrecognized)
  then have "switch_encoding cs t st1 = Inl (Unsupported t, st1)"
    by (auto simp: switch_encoding_def recognized_def)
  then have "passes cs (t # rev pre) st1 = Inl (Unsupported t, st1)"
    by simp
  with p have "passes cs (rev (tokens (Get (Header res) ''Content-Encoding''))) ?st0
      = Inl (Unsupported t, st1)"
    by (simp only: assms(2))
  then have "decompress cs res
      = (Inl (ErrUnsupportedEncoding (set_Body res (raw_of (body st1))) t),
         set_Body res (RawBody [] (raw_of (body st1))))"
    by (simp add: decompress_passes)
  then show ?thesis
    by (simp add: RoundTrip_wrapped[OF assms(1)] set_Body_def)
qed

lemma tokens_Br_gzip: "tokens ''Br, gzip'' = [''Br'', ''gzip'']"
  by code_simp

lemma lower_Br: "map lower ''Br'' = ''br''"
  by code_simp

theorem case_variant_is_unsupported_witness:
  "Encoding (projl (fst (RoundTrip stored_codecs no_transport
      (stubRoundTripper (newResponse foobarbaz_gzip ''Br, gzip'')) ''GET /''))) = ''Br''
   \<and> isl (fst (RoundTrip stored_codecs no_transport
      (stubRoundTripper (newResponse foobarbaz_gzip ''Br, gzip'')) ''GET /''))"
proof -
  let ?res = "newResponse foobarbaz_gzip ''Br, gzip''"
  have w: "wrapped no_transport (stubRoundTripper ?res) ''GET /'' = Inr ?res"
    by (rule wrapped_stub)
  have t: "tokens (Get (Header ?res) ''Content-Encoding'') = [] @ ''Br'' # [''gzip'']"
    unfolding Get_newResponse tokens_Br_gzip by simp
  have l: "map lower ''Br'' \<in> set [''gzip'', ''deflate'', ''br'', ''identity'']"
    unfolding lower_Br by simp
  have n: "''Br'' \<noteq> map lower ''Br''"
    unfolding lower_Br by simp
  have r: "\<forall>u \<in> set [''gzip'']. recognized u"
    by (simp add: recognized_def)
  have c: "readers_construct stored_codecs [''gzip''] (raw_ReadAll (Body ?res))"
    by (simp add: Body_newResponse raw_ReadAll_def stored_codecs_def gzip_foobarbaz)
  from case_variant_is_unsupported[OF w t l n r c]
  show ?thesis by auto
qed

lemma tokens_GZIP_gzip: "tokens ''GZIP, gzip'' = [''GZIP'', ''gzip'']"
  by code_simp

lemma passes_GZIP_gzip:
  "passes stored_codecs [''gzip'', ''GZIP'']
     \<lparr>body = RawBody [] \<lparr>unread = ''foobarbazfoobarbaz'', read_err = None, close_err = None\<rparr>,
      decompressed = False\<rparr>
   = Inl (GzipError ''gzip: invalid header'',
      \<lparr>body = RawBody ''foobarbazfoobarbaz'' \<lparr>unread = [], read_err = None, close_err = None\<rparr>,
       decompressed = True\<rparr>)"
  by code_simp

text \<open>
  As C9 is stated, for every header that contains such a token, it fails: with the
  header \<open>GZIP, gzip\<close> on a body that is no gzip stream, the loop reaches \<open>gzip\<close>
  first and RoundTrip returns the error of gzip.NewReader.
\<close>

theorem case_variant_counterexample:
  "fst (RoundTrip stored_codecs no_transport
      (stubRoundTripper (newResponse ''foobarbazfoobarbaz'' ''GZIP, gzip'')) ''GET /'')
   = Inl (CreateGzipReader ''gzip: invalid header'')"
proof -
  let ?res = "newResponse ''foobarbazfoobarbaz'' ''GZIP, gzip''"
  have w: "wrapped no_transport (stubRoundTripper ?res) ''GET /'' = Inr ?res"
    by (rule wrapped_stub)
  show ?thesis
    unfolding RoundTrip_wrapped[OF w] decompress_passes Get_newResponse Body_newResponse
      tokens_GZIP_gzip
    by (simp add: passes_GZIP_gzip del: passes.simps)
qed

section \<open>Nothing to decode\<close>

lemma decoders_of_identity:
  "\<forall>t \<in> set ts. t = ''identity'' \<or> t = [] \<Longrightarrow> decoders ts = []"
  by (induction ts) (auto simp: decoder_of_def)

lemma readers_construct_without_gzip:
  "''gzip'' \<notin> set ts \<Longrightarrow> readers_construct cs ts below"
  by (induction ts) auto

text \<open>
  C6 (amended). When every token of the Content-Encoding header is \<open>identity\<close> or
  empty (an absent or empty header gives the one empty token), RoundTrip returns the
  transport's response as it is: its body reads the same bytes, and its Uncompressed
  flag, ContentLength, headers and status are those of the transport's response, so
  the flag is false whenever the transport left it false.
\<close>

theorem identity_response_is_returned_as_it_is:
  assumes "wrapped dt r req = Inr res"
    and "\<forall>t \<in> set (tokens (Get (Header res) ''Content-Encoding'')). t = ''identity'' \<or> t = []"
  shows "RoundTrip cs dt r req
           = (Inr (set_Body res (RawBody [] (Body res))), Some (set_Body res (RawBody [] (Body res))))
       \<and> ReadAll cs (Body (set_Body res (RawBody [] (Body res)))) = raw_ReadAll (Body res)
       \<and> Uncompressed (set_Body res (RawBody [] (Body res))) = Uncompressed res
       \<and> ContentLength (set_Body res (RawBody [] (Body res))) = ContentLength res
       \<and> Header (set_Body res (RawBody [] (Body res))) = Header res
       \<and> StatusCode (set_Body res (RawBody [] (Body res))) = StatusCode res"
proof -
  let ?ts = "tokens (Get (Header res) ''Content-Encoding'')"
  let ?st0 = "\<lparr>body = RawBody [] (Body res), decompressed = False\<rparr>"
  from assms(2) have rec: "\<forall>t \<in> set (rev ?ts). recognized t"
    by (auto simp: recognized_def)
  from assms(2) have "''gzip'' \<notin> set ?ts" by auto
  then have "readers_construct cs (rev (rev ?ts)) (ReadAll cs (body ?st0))"
    by (simp add: readers_construct_without_gzip)
  from passes_succeeds[OF rec this] obtain st where p: "passes cs (rev ?ts) ?st0 = Inr st"
    by blast
  from passes_Inr(3)[OF p] assms(2) have "\<not> decompressed st"
    by (simp add: decoders_of_identity)
  with p have "decompress cs res
      = (Inr (set_Body res (RawBody [] (Body res))), set_Body res (RawBody [] (Body res)))"
    by (simp add: decompress_passes)
  then show ?thesis
    by (simp add: RoundTrip_wrapped[OF assms(1)] set_Body_def raw_ReadAll_def)
qed

lemma tokens_identity_blank: "tokens ''identity, ,identity'' = [''identity'', [], ''identity'']"
  by code_simp

theorem identity_response_is_returned_as_it_is_witness:
  "ReadAll stored_codecs (Body (projr (fst (RoundTrip stored_codecs no_transport
      (stubRoundTripper (newResponse ''foobarbaz'' ''identity, ,identity'')) ''GET /''))))
   = (''foobarbaz'', None)
   \<and> \<not> Uncompressed (projr (fst (RoundTrip stored_codecs no_transport
      (stubRoundTripper (newResponse ''foobarbaz'' ''identity, ,identity'')) ''GET /'')))"
proof -
  let ?res = "newResponse ''foobarbaz'' ''identity, ,identity''"
  have w: "wrapped no_transport (stubRoundTripper ?res) ''GET /'' = Inr ?res"
    by (rule wrapped_stub)
  have t: "\<forall>t \<in> set (tokens (Get (Header ?res) ''Content-Encoding'')). t = ''identity'' \<or> t = []"
    unfolding Get_newResponse tokens_identity_blank by simp
  from identity_response_is_returned_as_it_is[OF w t, of stored_codecs]
  show ?thesis
    by (simp add: set_Body_def newResponse_def)
qed

text \<open>
  As C6 is stated, with the flag always false, it fails on a response that the transport
  has already marked as uncompressed, as http.DefaultTransport does after its own
  transparent gzip decoding: RoundTrip returns it with the flag still set.
\<close>

theorem uncompressed_flag_counterexample:
  "Get (Header ((newResponse ''foobarbaz'' [])\<lparr>Uncompressed := True\<rparr>)) ''Content-Encoding'' = []
   \<and> Uncompressed (projr (fst (RoundTrip stored_codecs no_transport
        (stubRoundTripper ((newResponse ''foobarbaz'' [])\<lparr>Uncompressed := True\<rparr>)) ''GET /'')))"
proof -
  let ?res = "(newResponse ''foobarbaz'' [])\<lparr>Uncompressed := True\<rparr>"
  have w: "wrapped no_transport (stubRoundTripper ?res) ''GET /'' = Inr ?res"
    by (rule wrapped_stub)
  have g: "Get (Header ?res) ''Content-Encoding'' = []"
    by (simp add: newResponse_def Get_def)
  have "fst (decompress stored_codecs ?res) = Inr (set_Body ?res (RawBody [] (Body ?res)))"
    using g by (simp add: decompress_def)
  then show ?thesis
    using g by (simp add: RoundTrip_wrapped[OF w] set_Body_def)
qed

section \<open>Two encodings\<close>

text \<open>
  C2 (amended). The plaintext \<open>foobarbaz\<close> first gzip-compressed and then
  deflate-compressed (the body inflates to a gzip stream, on which the gzip reader is
  constructed and which it reads to \<open>foobarbaz\<close>), in a response with the header
  \<open>Content-Encoding: gzip, deflate\<close>: RoundTrip returns a response whose body reads
  back exactly \<open>foobarbaz\<close>, through the gzip decoder on top of the deflate decoder.
\<close>

theorem gzip_then_deflate_is_decoded:
  assumes "wrapped dt r req = Inr res"
    and "Get (Header res) ''Content-Encoding'' = ''gzip, deflate''"
    and "flate_Read cs (raw_ReadAll (Body res)) = (gz, None)"
    and "gzip_NewReader cs (gz, None) = None"
    and "gzip_Read cs (gz, None) = (''foobarbaz'', None)"
  shows "\<exists>res'. fst (RoundTrip cs dt r req) = Inr res'
           \<and> ReadAll cs (Body res') = (''foobarbaz'', None)
           \<and> layers (Body res') = [Gzip, Deflate]"
  using assms
  by (simp add: RoundTrip_wrapped decompress_passes tokens_gzip_deflate switch_encoding_def
      raw_ReadAll_def Let_def set_Body_def ReadAll_draw layers_draw)

lemma gzip_deflate_foobarbaz:
  "stored_flate_Read (foobarbaz_gzip_deflate, None) = (foobarbaz_gzip, None)"
  by code_simp

theorem gzip_then_deflate_is_decoded_witness:
  "ReadAll stored_codecs (Body (projr (fst (RoundTrip stored_codecs no_transport
      (stubRoundTripper (newResponse foobarbaz_gzip_deflate ''gzip, deflate'')) ''GET /''))))
   = (''foobarbaz'', None)"
proof -
  let ?res = "newResponse foobarbaz_gzip_deflate ''gzip, deflate''"
  have w: "wrapped no_transport (stubRoundTripper ?res) ''GET /'' = Inr ?res"
    by (rule wrapped_stub)
  have g: "Get (Header ?res) ''Content-Encoding'' = ''gzip, deflate''"
    by (rule Get_newResponse)
  have f: "flate_Read stored_codecs (raw_ReadAll (Body ?res)) = (foobarbaz_gzip, None)"
    by (simp add: Body_newResponse raw_ReadAll_def stored_codecs_def gzip_deflate_foobarbaz)
  have n: "gzip_NewReader stored_codecs (foobarbaz_gzip, None) = None"
    by (simp add: stored_codecs_def gzip_foobarbaz)
  have d: "gzip_Read stored_codecs (foobarbaz_gzip, None) = (''foobarbaz'', None)"
    by (simp add: stored_codecs_def gzip_foobarbaz)
  from gzip_then_deflate_is_decoded[OF w g f n d]
  show ?thesis by auto
qed

lemma deflate_gzip_foobarbaz:
  "stored_flate_Read (foobarbaz_deflate, None) = (''foobarbaz'', None)"
  "stored_gzip_NewReader (foobarbaz_deflate_gzip, None) = None"
  "stored_gzip_Read (foobarbaz_deflate_gzip, None) = (foobarbaz_deflate, None)"
  by code_simp+

lemma passes_deflate_gzip:
  "passes stored_codecs [''deflate'', ''gzip'']
     \<lparr>body = RawBody [] \<lparr>unread = foobarbaz_deflate_gzip, read_err = None, close_err = None\<rparr>,
      decompressed = False\<rparr>
   = Inl (GzipError ''flate: corrupt input'',
       \<lparr>body = cascadeReadCloser Deflate
          (RawBody foobarbaz_deflate_gzip \<lparr>unread = [], read_err = None, close_err = None\<rparr>),
        decompressed = True\<rparr>)"
  by code_simp

text \<open>
  As C2 is stated, with the plaintext first deflate-compressed and then gzip-compressed,
  it fails: under the header \<open>gzip, deflate\<close> the deflate decoder reads the wire
  bytes, which are a gzip stream, and reports them as corrupt when gzip.NewReader asks
  it for the gzip header.
\<close>

theorem deflate_then_gzip_counterexample:
  "stored_flate_Read (foobarbaz_deflate, None) = (''foobarbaz'', None)
   \<and> stored_gzip_NewReader (foobarbaz_deflate_gzip, None) = None
   \<and> stored_gzip_Read (foobarbaz_deflate_gzip, None) = (foobarbaz_deflate, None)
   \<and> fst (RoundTrip stored_codecs no_transport
        (stubRoundTripper (newResponse foobarbaz_deflate_gzip ''gzip, deflate'')) ''GET /'')
      = Inl (CreateGzipReader ''flate: corrupt input'')"
proof -
  let ?res = "newResponse foobarbaz_deflate_gzip ''gzip, deflate''"
  have w: "wrapped no_transport (stubRoundTripper ?res) ''GET /'' = Inr ?res"
    by (rule wrapped_stub)
  have "fst (RoundTrip stored_codecs no_transport (stubRoundTripper ?res) ''GET /'')
      = Inl (CreateGzipReader ''flate: corrupt input'')"
    unfolding RoundTrip_wrapped[OF w] decompress_passes Get_newResponse Body_newResponse
      tokens_gzip_deflate
    by (simp add: passes_deflate_gzip del: passes.simps)
  with deflate_gzip_foobarbaz show ?thesis by simp
qed

section \<open>Close\<close>

lemma snd_cascadeReadCloser_Close:
  "snd (cascadeReadCloser_Close readFrom_Close cascade_Close log)
     = snd (cascade_Close (snd (readFrom_Close log)))"
  by (simp add: cascadeReadCloser_Close_def split: prod.splits)

lemma snd_Close: "snd (Close cs b log) = log @ map ClosedDecoder (layers b) @ [ClosedRaw]"
  by (induction b arbitrary: log) (simp_all add: snd_cascadeReadCloser_Close)

text \<open>
  C5. Close of a cascading layer runs the Close of its decoder and then, whatever that
  returned, the Close of the stream below. When both fail it returns an error whose
  message is the two messages joined by \<open>: \<close>; when one fails, that error; when none
  fails, no error. Closing a whole body therefore closes every decoder once, outermost
  first, and then the transport's body.
\<close>

theorem cascade_close_attempts_both:
  "cascadeReadCloser_Close readFrom_Close cascade_Close log =
     (case (fst (readFrom_Close log), fst (cascade_Close (snd (readFrom_Close log)))) of
        (Some rerr, Some cerr) \<Rightarrow> Some (rerr @ '': '' @ cerr)
      | (Some rerr, None) \<Rightarrow> Some rerr
      | (None, Some cerr) \<Rightarrow> Some cerr
      | (None, None) \<Rightarrow> None,
      snd (cascade_Close (snd (readFrom_Close log))))
   \<and> snd (Close cs b log) = log @ map ClosedDecoder (layers b) @ [ClosedRaw]"
  by (auto simp: cascadeReadCloser_Close_def snd_Close split: prod.splits option.splits)

section \<open>The original response in ErrUnsupportedEncoding\<close>

text \<open>Only the construction of a gzip reader takes bytes out of the transport's body.\<close>

lemma switch_encoding_raw_of:
  "switch_encoding cs t st = Inr st' \<Longrightarrow> t \<noteq> ''gzip'' \<Longrightarrow>
   raw_of (body st') = raw_of (body st)"
  by (auto simp: switch_encoding_def split: if_splits)

lemma passes_Unsupported_raw_of:
  "passes cs xs st = Inl (Unsupported enc, ste) \<Longrightarrow> ''gzip'' \<notin> set xs \<Longrightarrow>
   raw_of (body ste) = raw_of (body st)"
proof (induction xs arbitrary: st)
  case Nil
  then show ?case by simp
next
  case (Cons t ts)
  show ?case
  proof (cases "switch_encoding cs t st")
    case (Inl e)
    with Cons.prems have "switch_encoding cs t st = Inl (Unsupported enc, ste)" by simp
    then show ?thesis by (auto dest: switch_encoding_Unsupported)
  next
    case (Inr st1)
    with Cons.prems have "passes cs ts st1 = Inl (Unsupported enc, ste)" by simp
    with Cons.IH[of st1] Cons.prems(2) have "raw_of (body ste) = raw_of (body st1)" by simp
    moreover from Cons.prems(2) have "t \<noteq> ''gzip''" by auto
    ultimately show ?thesis using switch_encoding_raw_of[OF Inr] by simp
  qed
qed

text \<open>
  What ErrUnsupportedEncoding carries: the response object with its headers,
  ContentLength, flag and status as the transport set them; and with its body unread
  when no \<open>gzip\<close> token stands in the header.
\<close>

lemma Original_fields:
  assumes "wrapped dt r req = Inr res"
    and "fst (RoundTrip cs dt r req) = Inl (ErrUnsupportedEncoding orig enc)"
  shows "Header orig = Header res \<and> ContentLength orig = ContentLength res
       \<and> Uncompressed orig = Uncompressed res \<and> StatusCode orig = StatusCode res
       \<and> (''gzip'' \<notin> set (tokens (Get (Header res) ''Content-Encoding'')) \<longrightarrow> orig = res)"
proof -
  let ?ts = "tokens (Get (Header res) ''Content-Encoding'')"
  let ?st0 = "\<lparr>body = RawBody [] (Body res), decompressed = False\<rparr>"
  from assms have d: "fst (decompress cs res) = Inl (ErrUnsupportedEncoding orig enc)"
    by (simp add: RoundTrip_wrapped)
  then obtain st where p: "passes cs (rev ?ts) ?st0 = Inl (Unsupported enc, st)"
    and o: "orig = set_Body res (raw_of (body st))"
    by (auto simp: decompress_passes split: sum.splits prod.splits loop_error.splits if_splits)
  have "''gzip'' \<notin> set ?ts \<Longrightarrow> raw_of (body st) = Body res"
    using passes_Unsupported_raw_of[OF p] by simp
  with o show ?thesis by (auto simp: set_Body_def)
qed

lemma tokens_unsupported_gzip: "tokens ''unsupported, gzip'' = [''unsupported'', ''gzip'']"
  by code_simp

lemma passes_unsupported_gzip:
  "passes stored_codecs [''gzip'', ''unsupported'']
     \<lparr>body = RawBody [] \<lparr>unread = bytes123_gzip, read_err = None, close_err = None\<rparr>,
      decompressed = False\<rparr>
   = Inl (Unsupported ''unsupported'',
       \<lparr>body = cascadeReadCloser Gzip
          (RawBody bytes123_gzip \<lparr>unread = [], read_err = None, close_err = None\<rparr>),
        decompressed = True\<rparr>)"
  by code_simp

lemma gzip_bytes123:
  "stored_gzip_Read (bytes123_gzip, None) = ([CHR 0x01, CHR 0x02, CHR 0x03], None)"
  by code_simp

text \<open>
  C4. For the header \<open>unsupported, gzip\<close> RoundTrip returns an ErrUnsupportedEncoding
  whose Encoding is \<open>unsupported\<close> and whose Original has the headers, ContentLength,
  flag and status of the transport's response. Its body, however, no longer reads the
  bytes of the transport's response: the loop has constructed the gzip reader for the
  token to the right before it meets \<open>unsupported\<close>, and gzip.NewReader has read the
  gzip header out of the body, through its buffer. On the body of the test, the gzip
  stream of the bytes 1, 2, 3, nothing is left to read.
\<close>

theorem original_body_is_consumed:
  "raw_ReadAll (Body (newResponse bytes123_gzip ''unsupported, gzip'')) = (bytes123_gzip, None)
   \<and> fst (RoundTrip stored_codecs no_transport
        (stubRoundTripper (newResponse bytes123_gzip ''unsupported, gzip'')) ''GET /'')
     = Inl (ErrUnsupportedEncoding
         (set_Body (newResponse bytes123_gzip ''unsupported, gzip'')
            \<lparr>unread = [], read_err = None, close_err = None\<rparr>)
         ''unsupported'')
   \<and> raw_ReadAll (Body (Original (projl (fst (RoundTrip stored_codecs no_transport
        (stubRoundTripper (newResponse bytes123_gzip ''unsupported, gzip'')) ''GET /''))))) = ([], None)"
proof -
  let ?res = "newResponse bytes123_gzip ''unsupported, gzip''"
  have w: "wrapped no_transport (stubRoundTripper ?res) ''GET /'' = Inr ?res"
    by (rule wrapped_stub)
  have "fst (RoundTrip stored_codecs no_transport (stubRoundTripper ?res) ''GET /'')
      = Inl (ErrUnsupportedEncoding
          (set_Body ?res \<lparr>unread = [], read_err = None, close_err = None\<rparr>) ''unsupported'')"
    unfolding RoundTrip_wrapped[OF w] decompress_passes Get_newResponse Body_newResponse
      tokens_unsupported_gzip
    by (simp add: passes_unsupported_gzip del: passes.simps)
  then show ?thesis
    by (simp add: Body_newResponse raw_ReadAll_def set_Body_def)
qed

end
